theory Spec2Isabelle
  imports Main
begin

section \<open>Python values and effects\<close>

text \<open>
  A Python \<open>str\<close> is a \<open>string\<close>: one \<open>char\<close> per code point, for the code points
  U+0000 to U+00FF. Exceptions are values: a function that may raise returns
  \<open>exn + 'a\<close>, with \<open>Inl\<close> the exception that leaves it.
\<close>

datatype exn = EOFError | KeyError string | ValueError | TypeError | IndexError

text \<open>
  A function that talks to the terminal returns the text it wrote to standard output,
  its outcome, and the number of lines it read from standard input. The lines waiting
  on standard input are a list; \<open>input()\<close> on the empty list raises \<open>EOFError\<close>.
\<close>

type_synonym 'a io = "string \<times> (exn + 'a) \<times> nat"

definition then_io :: "string \<Rightarrow> nat \<Rightarrow> 'a io \<Rightarrow> 'a io" where
  "then_io out k r = (case r of (out', res, k') \<Rightarrow> (out @ out', res, k + k'))"

abbreviation NL :: string where
  "NL \<equiv> [CHR 0x0A]"

text \<open>\<open>str.lower()\<close>: the letters A to Z and the capital letters of Latin-1 have a lower case.\<close>

definition lower_char :: "char \<Rightarrow> char" where
  "lower_char c =
     (let n = (of_char c :: nat)
      in if (65 \<le> n \<and> n \<le> 90) \<or> (192 \<le> n \<and> n \<le> 222 \<and> n \<noteq> 215)
         then char_of (n + 32) else c)"

definition lower :: "string \<Rightarrow> string" where
  "lower s = map lower_char s"

text \<open>
  \<open>str.isdigit()\<close>: at least one character, and every character a digit. Below U+0100
  the digits are 0 to 9 and the superscripts two, three and one (U+00B2, U+00B3, U+00B9).
\<close>

definition isdigit_char :: "char \<Rightarrow> bool" where
  "isdigit_char c =
     (let n = (of_char c :: nat)
      in (48 \<le> n \<and> n \<le> 57) \<or> n = 178 \<or> n = 179 \<or> n = 185)"

definition isdigit :: "string \<Rightarrow> bool" where
  "isdigit s = (s \<noteq> [] \<and> list_all isdigit_char s)"

text \<open>
  \<open>int(x)\<close> for a string of digits, the only strings the program converts (both calls
  come after \<open>x.isdigit()\<close>): the decimal value when every character is one of 0 to 9,
  and \<open>ValueError\<close> otherwise, as for a superscript digit. The interpreter's limit on
  the number of digits, beyond which \<open>int\<close> raises as well, is left out.
\<close>

definition decimal_char :: "char \<Rightarrow> bool" where
  "decimal_char c = (let n = (of_char c :: nat) in 48 \<le> n \<and> n \<le> 57)"

definition decimal_value :: "string \<Rightarrow> nat" where
  "decimal_value s = foldl (\<lambda>a c. 10 * a + (of_char c - 48)) 0 s"

definition py_int :: "string \<Rightarrow> exn + int" where
  "py_int s =
     (if s \<noteq> [] \<and> list_all decimal_char s then Inr (int (decimal_value s))
      else Inl ValueError)"

text \<open>\<open>str(n)\<close> for a natural number: its decimal digits.\<close>

fun str :: "nat \<Rightarrow> string" where
  "str n = (if n < 10 then [char_of (48 + n)] else str (n div 10) @ [char_of (48 + n mod 10)])"

declare str.simps [simp del]

text \<open>\<open>s * n\<close> on a string, \<open>sep.join(xs)\<close>, and the format specifications \<open>:>w\<close> and \<open>:<w\<close>.\<close>

definition repeat :: "string \<Rightarrow> int \<Rightarrow> string" where
  "repeat s n = concat (replicate (nat n) s)"

fun join :: "string \<Rightarrow> string list \<Rightarrow> string" where
  "join sep [] = []"
| "join sep [x] = x"
| "join sep (x # y # ys) = x @ sep @ join sep (y # ys)"

definition format_right :: "string \<Rightarrow> nat \<Rightarrow> string" where
  "format_right s w = replicate (w - length s) CHR '' '' @ s"

definition format_left :: "string \<Rightarrow> nat \<Rightarrow> string" where
  "format_left s w = s @ replicate (w - length s) CHR '' ''"

definition endswith :: "string \<Rightarrow> string \<Rightarrow> bool" where
  "endswith s suf = (length suf \<le> length s \<and> drop (length s - length suf) s = suf)"

text \<open>\<open>max(xs)\<close> raises \<open>ValueError\<close> on the empty list; \<open>xs[i]\<close> counts a negative index from the end.\<close>

definition py_max :: "nat list \<Rightarrow> exn + nat" where
  "py_max xs = (case xs of [] \<Rightarrow> Inl ValueError | x # ys \<Rightarrow> Inr (fold max ys x))"

definition getitem :: "'a list \<Rightarrow> int \<Rightarrow> exn + 'a" where
  "getitem xs i =
     (if 0 \<le> i \<and> i < int (length xs) then Inr (xs ! nat i)
      else if i < 0 \<and> - int (length xs) \<le> i then Inr (xs ! nat (int (length xs) + i))
      else Inl IndexError)"

definition getkey :: "string \<Rightarrow> 'a option \<Rightarrow> exn + 'a" where
  "getkey key v = (case v of None \<Rightarrow> Inl (KeyError key) | Some x \<Rightarrow> Inr x)"

definition bind :: "exn + 'a \<Rightarrow> ('a \<Rightarrow> exn + 'b) \<Rightarrow> exn + 'b" where
  "bind m f = (case m of Inl ex \<Rightarrow> Inl ex | Inr x \<Rightarrow> f x)"

section \<open>request_input\<close>

text \<open>The parameters of \<open>request_input\<close>; \<open>check_func = None\<close> is Python's \<open>None\<close>.\<close>

record request =
  prompt_msg :: string
  err_msg :: string
  has_default_val :: bool
  default_val :: string
  has_quit_val :: bool
  quit_val :: string
  check_func :: "(string \<Rightarrow> exn + bool) option"
  ask_again :: bool
  need_confirm :: bool

text \<open>The call with only \<open>prompt_msg\<close> given: every other parameter at its default.\<close>

definition default_request :: "string \<Rightarrow> request" where
  "default_request p =
     \<lparr>prompt_msg = p, err_msg = ''Invalid value.'',
      has_default_val = False, default_val = '''',
      has_quit_val = True, quit_val = ''q'',
      check_func = None, ask_again = True, need_confirm = False\<rparr>"

text \<open>The nested call of the confirmation step, with its \<open>lambda\<close> as \<open>confirm_check\<close>.\<close>

definition confirm_check :: "string \<Rightarrow> exn + bool" where
  "confirm_check x = Inr (lower x \<in> set [''y'', ''yes'', ''n'', ''no''])"

definition confirm_request :: "string \<Rightarrow> request" where
  "confirm_request input_val =
     \<lparr>prompt_msg = ''Do you confirm the value ['' @ input_val @ ''] (yes/no)'',
      err_msg = ''Invalid value.'',
      has_default_val = False, default_val = '''',
      has_quit_val = False, quit_val = ''q'',
      check_func = Some confirm_check,
      ask_again = True, need_confirm = False\<rparr>"

text \<open>What is printed before the line is read: the prompt, and the default when there is one.\<close>

definition prompt_text :: "request \<Rightarrow> string" where
  "prompt_text r =
     (if has_default_val r
      then prompt_msg r @ '' (Default ['' @ default_val r @ '']): ''
      else prompt_msg r @ '': '')"

text \<open>\<open>input() or default_val\<close> with a default, \<open>input(": ")\<close> without.\<close>

definition submitted :: "request \<Rightarrow> string \<Rightarrow> string" where
  "submitted r raw = (if has_default_val r \<and> raw = '''' then default_val r else raw)"

text \<open>
  The last step of the loop body, from \<open>if check_func is not None\<close> on: the text it
  prints, and whether the loop goes round again, returns, or an exception of
  \<open>check_func\<close> leaves the function.
\<close>

datatype 'a step = Continue | Return 'a | Raise exn

definition validate :: "request \<Rightarrow> string \<Rightarrow> string \<times> (string \<times> bool) step" where
  "validate r input_val =
     (case check_func r of
        None \<Rightarrow> ('''', Return (input_val, True))
      | Some f \<Rightarrow>
          (case f input_val of
             Inl ex \<Rightarrow> ('''', Raise ex)
           | Inr True \<Rightarrow> ('''', Return (input_val, True))
           | Inr False \<Rightarrow>
               if ask_again r
               then (err_msg r @ '' '' @ ''Please enter again.'' @ NL, Continue)
               else (err_msg r @ '' '' @ NL, Return ('''', False))))"

text \<open>
  The \<open>while True\<close> loop of \<open>request_input\<close>, one line of input for each round and the
  lines of the nested confirmation after it. \<open>result\<close> and \<open>state\<close> are bound only when
  \<open>need_confirm\<close> holds.
\<close>

function request_input :: "request \<Rightarrow> string list \<Rightarrow> (string \<times> bool) io" where
  "request_input r [] = (prompt_text r, Inl EOFError, 0)"
| "request_input r (raw # rest) =
     (let input_val = submitted r raw
      in if has_quit_val r \<and> input_val = quit_val r
         then (prompt_text r @ ''Quit.'' @ NL, Inr ('''', False), 1)
         else
           (case (if need_confirm r
                  then request_input (confirm_request input_val) rest
                  else ('''', Inr ('''', True), 0)) of
              (out, Inl ex, k) \<Rightarrow> (prompt_text r @ out, Inl ex, 1 + k)
            | (out, Inr (result, state), k) \<Rightarrow>
                if need_confirm r \<and> result \<in> set [''n'', ''no'']
                then then_io (prompt_text r @ out) (1 + k) (request_input r (drop k rest))
                else
                  (case validate r input_val of
                     (msg, Continue) \<Rightarrow>
                       then_io (prompt_text r @ out @ msg) (1 + k)
                         (request_input r (drop k rest))
                   | (msg, Return v) \<Rightarrow> (prompt_text r @ out @ msg, Inr v, 1 + k)
                   | (msg, Raise ex) \<Rightarrow> (prompt_text r @ out @ msg, Inl ex, 1 + k))))"
  by pat_completeness auto
termination
  by (relation "measure (\<lambda>(r, ins). length ins)") auto

declare request_input.simps(2) [simp del]

section \<open>The option tree\<close>

text \<open>\<open>MenuConfig\<close> is a \<open>TypedDict\<close> with \<open>total=False\<close>: every key may be absent.\<close>

record menu_config =
  left_padding :: "int option"
  right_padding :: "int option"
  top_padding :: "int option"
  bottom_padding :: "int option"
  edge_char :: "string option"
  wall_char :: "string option"
  serial_marker :: "string option"
  draw_menu_again :: "bool option"

definition DEFAULT_MENU_CONFIG :: menu_config where
  "DEFAULT_MENU_CONFIG =
     \<lparr>left_padding = Some 2, right_padding = Some 10,
      top_padding = Some 1, bottom_padding = Some 1,
      edge_char = Some ''#'', wall_char = Some '' '',
      serial_marker = Some ''. '', draw_menu_again = Some False\<rparr>"

definition RETURN_CODE :: int where "RETURN_CODE = 0xbabe"
definition ENTER_CODE :: int where "ENTER_CODE = 0xbeef"
definition QUIT_CODE :: int where "QUIT_CODE = 0xcafe"

text \<open>
  The callable bound to a node: one of the four methods of the class, or a function of
  the host, which stands here for the text it prints and the value it returns (\<open>None\<close>,
  or a value equal to an integer); it reads no line and raises nothing. A bound
  \<open>_enter_next_level\<close> is the method of the node that holds it, as \<open>add_option\<close> binds it.
\<close>

datatype callable =
    Default_func
  | Enter_next_level
  | Return_previous_level
  | Quiting_level
  | Host string "int option"

text \<open>A node; \<open>args\<close> is the number of bound positional and named arguments.\<close>

datatype node =
  Node (title: string) (exec_func: callable) (args: nat) (menu_config: menu_config)
       (children: "node list") (is_root: bool)

text \<open>\<open>_OptionNode.__init__\<close>; an argument that is \<open>None\<close> in Python is \<open>None\<close> here.\<close>

definition init :: "string \<Rightarrow> callable option \<Rightarrow> nat \<Rightarrow> menu_config option \<Rightarrow> bool \<Rightarrow> node" where
  "init t f a cfg root =
     Node t (case f of None \<Rightarrow> Default_func | Some g \<Rightarrow> g) a
       (case cfg of None \<Rightarrow> DEFAULT_MENU_CONFIG | Some c \<Rightarrow> c) [] root"

text \<open>\<open>CliHelper(menu_config)\<close>: the root node. The version line it prints is left out.\<close>

definition CliHelper :: "menu_config option \<Rightarrow> node" where
  "CliHelper cfg = init ''Main Menu'' None 0 cfg True"

text \<open>\<open>add_option\<close> returns the node it was called on, as the call leaves it.\<close>

definition add_option :: "node \<Rightarrow> string \<Rightarrow> callable option \<Rightarrow> nat \<Rightarrow> node" where
  "add_option self t f a =
     Node (if \<not> endswith (title self) '' [d]'' then title self @ '' [d]'' else title self)
       Enter_next_level (args self) (menu_config self)
       (children self @ [init t f a (Some (menu_config self)) False])
       (is_root self)"

definition add_return_option :: "node \<Rightarrow> node" where
  "add_return_option self = add_option self ''[Back]'' (Some Return_previous_level) 0"

definition add_exit_option :: "node \<Rightarrow> node" where
  "add_exit_option self = add_option self ''[Exit]'' (Some Quiting_level) 0"

section \<open>Drawing the menu\<close>

definition get_max_length_of_option_titles :: "node \<Rightarrow> exn + nat" where
  "get_max_length_of_option_titles self = py_max (map (\<lambda>c. length (title c)) (children self))"

definition draw_menu :: "node \<Rightarrow> exn + string" where
  "draw_menu self =
     bind (getkey ''left_padding'' (left_padding (menu_config self))) (\<lambda>left.
     bind (getkey ''right_padding'' (right_padding (menu_config self))) (\<lambda>right.
     bind (getkey ''top_padding'' (top_padding (menu_config self))) (\<lambda>top.
     bind (getkey ''bottom_padding'' (bottom_padding (menu_config self))) (\<lambda>bottom.
     bind (getkey ''edge_char'' (edge_char (menu_config self))) (\<lambda>ec.
     bind (getkey ''wall_char'' (wall_char (menu_config self))) (\<lambda>wc.
     bind (getkey ''serial_marker'' (serial_marker (menu_config self))) (\<lambda>sm.
     bind (get_max_length_of_option_titles self) (\<lambda>max_len_option.
       let max_len_serial = length (str (length (children self)));
           option_width = int max_len_serial + int (length sm) + int max_len_option;
           menu_width = left + option_width + right;
           top_bottom_edge = repeat ec (menu_width + int (length ec) * 2);
           top_bottom_wall = ec @ repeat wc menu_width @ ec;
           left_wall = ec @ repeat wc left;
           right_wall = repeat wc right @ ec
       in Inr (join NL (top_bottom_edge # replicate (nat top) top_bottom_wall) @ NL
               @ concat (map (\<lambda>(i, opt).
                    left_wall @ format_right (str (i + 1)) max_len_serial @ sm
                    @ format_left (title opt) max_len_option @ right_wall @ NL)
                  (enumerate 0 (children self)))
               @ join NL (replicate (nat bottom) top_bottom_wall @ [top_bottom_edge]) @ NL)
     ))))))))"

section \<open>Choosing an option\<close>

text \<open>The \<open>lambda\<close> of \<open>_request_option\<close>; \<open>and\<close> evaluates \<open>int(x)\<close> only after \<open>x.isdigit()\<close>.\<close>

definition option_check :: "node \<Rightarrow> string \<Rightarrow> exn + bool" where
  "option_check self x =
     (if isdigit x
      then bind (py_int x) (\<lambda>v. Inr (1 \<le> v \<and> v \<le> int (length (children self))))
      else Inr False)"

definition option_request :: "node \<Rightarrow> request" where
  "option_request self =
     \<lparr>prompt_msg = NL @ ''Your option'', err_msg = ''No such option.'',
      has_default_val = False, default_val = '''',
      has_quit_val = False, quit_val = ''q'',
      check_func = Some (option_check self),
      ask_again = False, need_confirm = False\<rparr>"

definition request_option :: "node \<Rightarrow> string list \<Rightarrow> node option io" where
  "request_option self ins =
     (case request_input (option_request self) ins of
        (out, Inl ex, k) \<Rightarrow> (out, Inl ex, k)
      | (out, Inr (choice, state), k) \<Rightarrow>
          if \<not> state then (out, Inr None, k)
          else (case bind (py_int choice) (\<lambda>v. getitem (children self) (v - 1)) of
                  Inl ex \<Rightarrow> (out, Inl ex, k)
                | Inr opt \<Rightarrow> (out, Inr (Some opt), k)))"

lemma request_input_reads:
  assumes "request_input r ins = (out, Inr v, k)"
  shows "0 < k \<and> 0 < length ins"
proof (cases ins)
  case Nil
  with assms show ?thesis by simp
next
  case (Cons raw rest)
  with assms show ?thesis
    by (auto simp: request_input.simps(2) Let_def then_io_def
             split: if_splits prod.splits sum.splits step.splits)
qed

lemma request_option_reads:
  assumes "request_option self ins = (out, Inr v, k)"
  shows "0 < k \<and> 0 < length ins"
  using assms request_input_reads [of "option_request self" ins]
  by (auto simp: request_option_def split: prod.splits sum.splits if_splits)

section \<open>The traversal\<close>

text \<open>
  The first statement of the loop body: the menu is drawn when \<open>draw_menu_again\<close> is set
  or \<open>state\<close> is the enter code. The result is the text drawn (empty when nothing is),
  or the \<open>KeyError\<close> of the lookup or the exception of \<open>_draw_menu\<close>.
\<close>

definition redraw :: "node \<Rightarrow> int option \<Rightarrow> exn + string" where
  "redraw self state =
     bind (getkey ''draw_menu_again'' (draw_menu_again (menu_config self)))
       (\<lambda>again. if again \<or> state = Some ENTER_CODE then draw_menu self else Inr [])"

text \<open>
  \<open>_enter_next_level\<close>, its \<open>while\<close> loop from a given \<open>state\<close> (\<open>None\<close>, or an integer),
  and the call \<open>opt.exec_func(*opt.args, **opt.kwargs)\<close>. The methods of the class take no
  argument, so the call raises \<open>TypeError\<close> when arguments are bound to one.
\<close>

function enter_next_level :: "node \<Rightarrow> string list \<Rightarrow> int io"
  and while_loop :: "node \<Rightarrow> int option \<Rightarrow> string list \<Rightarrow> int option io"
  and call_exec_func :: "node \<Rightarrow> string list \<Rightarrow> int option io"
where
  "enter_next_level self ins =
     (case while_loop self (Some ENTER_CODE) ins of
        (out, Inl ex, k) \<Rightarrow> (out, Inl ex, k)
      | (out, Inr state, k) \<Rightarrow>
          (out, Inr (if state = Some QUIT_CODE then QUIT_CODE else ENTER_CODE), k))"
| "while_loop self state ins =
     (if state \<noteq> Some RETURN_CODE \<and> state \<noteq> Some QUIT_CODE
      then
        (case redraw self state of
           Inl ex \<Rightarrow> ('''', Inl ex, 0)
         | Inr menu \<Rightarrow>
             (case request_option self ins of
                (out, Inl ex, k) \<Rightarrow> (menu @ out, Inl ex, k)
              | (out, Inr None, k) \<Rightarrow>
                  then_io (menu @ out) k (while_loop self None (drop k ins))
              | (out, Inr (Some opt), k) \<Rightarrow>
                  (case call_exec_func opt (drop k ins) of
                     (out', Inl ex, k') \<Rightarrow> (menu @ out @ out', Inl ex, k + k')
                   | (out', Inr state', k') \<Rightarrow>
                       then_io (menu @ out @ out') (k + k')
                         (while_loop self state' (drop (k + k') ins)))))
      else ('''', Inr state, 0))"
| "call_exec_func opt ins =
     (case exec_func opt of
        Host out ret \<Rightarrow> (out, Inr ret, 0)
      | Default_func \<Rightarrow>
          if args opt \<noteq> 0 then ('''', Inl TypeError, 0)
          else (''No function'' @ NL, Inr None, 0)
      | Enter_next_level \<Rightarrow>
          if args opt \<noteq> 0 then ('''', Inl TypeError, 0)
          else (case enter_next_level opt ins of
                  (out, Inl ex, k) \<Rightarrow> (out, Inl ex, k)
                | (out, Inr code, k) \<Rightarrow> (out, Inr (Some code), k))
      | Return_previous_level \<Rightarrow>
          if args opt \<noteq> 0 then ('''', Inl TypeError, 0)
          else ('''', Inr (Some RETURN_CODE), 0)
      | Quiting_level \<Rightarrow>
          if args opt \<noteq> 0 then ('''', Inl TypeError, 0)
          else ('''', Inr (Some QUIT_CODE), 0))"
  by pat_completeness auto
termination
  apply (relation "measure (\<lambda>x. case x of
          Inl (self, ins) \<Rightarrow> 3 * length ins + 1
        | Inr (Inl (self, state, ins)) \<Rightarrow> 3 * length ins
        | Inr (Inr (opt, ins)) \<Rightarrow> 3 * length ins + 2)")
  apply (auto dest!: request_option_reads [OF sym] simp: neq_Nil_conv)
  done

declare enter_next_level.simps [simp del] while_loop.simps [simp del]
  call_exec_func.simps [simp del]

text \<open>\<open>start_loop\<close>: the loop on the root, a message on any other node.\<close>

definition start_loop :: "node \<Rightarrow> string list \<Rightarrow> unit io" where
  "start_loop self ins =
     (if is_root self
      then (case enter_next_level self ins of
              (out, Inl ex, k) \<Rightarrow> (out, Inl ex, k)
            | (out, Inr code, k) \<Rightarrow> (out @ ''Exit CliHelper. Bye.'' @ NL, Inr (), k))
      else (''Current option is not the root option. Exit.'' @ NL, Inr (), 0))"

section \<open>A quit below a level\<close>

text \<open>
  \<open>unwinds self state ins out k\<close>: in the loop of \<open>self\<close>, started in \<open>state\<close> on the lines
  \<open>ins\<close>, a call that is not itself a level returns the quit code, in this level or in a
  level entered from it at any depth, after \<open>k\<close> lines have been read and \<open>out\<close> has been
  printed. The rules follow the loop: the chosen option returns the quit code itself;
  the chosen option is a level in whose loop this happens; or the round ends with a
  state from which it happens in a later round.
\<close>

inductive unwinds :: "node \<Rightarrow> int option \<Rightarrow> string list \<Rightarrow> string \<Rightarrow> nat \<Rightarrow> bool" where
  quit_here:
    "state \<noteq> Some RETURN_CODE \<Longrightarrow> state \<noteq> Some QUIT_CODE \<Longrightarrow>
     redraw self state = Inr shown \<Longrightarrow>
     request_option self ins = (out, Inr (Some opt), k) \<Longrightarrow>
     exec_func opt \<noteq> Enter_next_level \<Longrightarrow>
     call_exec_func opt (drop k ins) = (out', Inr (Some QUIT_CODE), k') \<Longrightarrow>
     unwinds self state ins (shown @ out @ out') (k + k')"
| quit_below:
    "state \<noteq> Some RETURN_CODE \<Longrightarrow> state \<noteq> Some QUIT_CODE \<Longrightarrow>
     redraw self state = Inr shown \<Longrightarrow>
     request_option self ins = (out, Inr (Some opt), k) \<Longrightarrow>
     exec_func opt = Enter_next_level \<Longrightarrow> args opt = 0 \<Longrightarrow>
     unwinds opt (Some ENTER_CODE) (drop k ins) out' k' \<Longrightarrow>
     unwinds self state ins (shown @ out @ out') (k + k')"
| quit_later:
    "state \<noteq> Some RETURN_CODE \<Longrightarrow> state \<noteq> Some QUIT_CODE \<Longrightarrow>
     redraw self state = Inr shown \<Longrightarrow>
     request_option self ins = (out, Inr choice, k) \<Longrightarrow>
     (case choice of
        None \<Rightarrow> out' = [] \<and> state' = None \<and> k' = 0
      | Some opt \<Rightarrow> call_exec_func opt (drop k ins) = (out', Inr state', k')) \<Longrightarrow>
     unwinds self state' (drop (k + k') ins) out'' k'' \<Longrightarrow>
     unwinds self state ins (shown @ out @ out' @ out'') (k + k' + k'')"

section \<open>The calls of the test script\<close>

text \<open>\<open>test_req\<close> of \<open>test.py\<close>: its \<open>lambda\<close>, and the parameters of its call.\<close>

definition test_req_check :: "string \<Rightarrow> exn + bool" where
  "test_req_check x =
     (if isdigit x then bind (py_int x) (\<lambda>v. Inr (1 < v \<and> v < 10)) else Inr False)"

definition test_req :: request where
  "test_req =
     \<lparr>prompt_msg = NL @ ''Enter a number'', err_msg = ''Invalid value.'',
      has_default_val = True, default_val = ''4'',
      has_quit_val = True, quit_val = ''q'',
      check_func = Some test_req_check, ask_again = False, need_confirm = True\<rparr>"

text \<open>A request whose quit value is the empty line, with a default.\<close>

definition quit_on_empty :: request where
  "quit_on_empty =
     (default_request ''p'')\<lparr>has_default_val := True, default_val := ''d'', quit_val := ''''\<rparr>"

text \<open>A root under the default configuration with one option.\<close>

definition one_option :: node where
  "one_option = add_option (CliHelper None) ''Save'' None 0"

text \<open>
  The host keeps the node that \<open>add_option\<close> returns and calls methods on it later; in
  the tree that node stands at a path of child indices, and \<open>at_path\<close> applies a method
  there.
\<close>

fun at_path :: "nat list \<Rightarrow> (node \<Rightarrow> node) \<Rightarrow> node \<Rightarrow> node" where
  "at_path [] f self = f self"
| "at_path (i # p) f self =
     Node (title self) (exec_func self) (args self) (menu_config self)
       ((children self)[i := at_path p f (children self ! i)]) (is_root self)"

text \<open>A run of \<open>add_option\<close> calls on one node, each with its title, callable and arguments.\<close>

fun add_options :: "node \<Rightarrow> (string \<times> callable option \<times> nat) list \<Rightarrow> node" where
  "add_options self [] = self"
| "add_options self ((t, f, a) # calls) = add_options (add_option self t f a) calls"

text \<open>
  \<open>test_helper\<close> of \<open>test.py\<close>: the configuration it passes (two keys, the others absent)
  and the tree it builds, call by call.
\<close>

definition test_config :: menu_config where
  "test_config =
     \<lparr>left_padding = None, right_padding = Some 20,
      top_padding = None, bottom_padding = None,
      edge_char = None, wall_char = None,
      serial_marker = Some ''->'', draw_menu_again = None\<rparr>"

definition test_helper :: "menu_config option \<Rightarrow> node" where
  "test_helper cfg =
     (let ch = CliHelper cfg;
          ch = add_option ch ''New'' None 0;
          ch = at_path [0] add_return_option ch;
          ch = at_path [0] (\<lambda>n. add_option n ''New File'' None 0) ch;
          ch = at_path [0] (\<lambda>n. add_option n ''New Folder''
                 (Some (Host (''Folder [Temp] created'' @ NL) None)) 1) ch;
          ch = at_path [0] add_exit_option ch;
          ch = add_option ch ''Open File'' (Some (Host (''File Opened'' @ NL) None)) 0;
          ch = add_option ch ''Save'' None 0
      in add_exit_option ch)"

text \<open>A node whose title already ends with the marker of a submenu.\<close>

definition marked_leaf :: node where
  "marked_leaf = init ''Files [d]'' None 0 None False"

section \<open>The menu as the specification describes it\<close>



text \<open>A root under the default configuration with three options.\<close>

definition three_options :: node where
  "three_options =
     add_options (CliHelper None) [(''New File'', None, 0), (''Open'', None, 0), (''Exit'', None, 0)]"




section \<open>Evaluation\<close>

lemma then_io_simp [simp]: "then_io out k (out', res, k') = (out @ out', res, k + k')"
  by (simp add: then_io_def)

lemma then_io_Inr:
  "then_io out k r = (out', Inr v, k') \<longleftrightarrow>
     (\<exists>out1 k1. r = (out1, Inr v, k1) \<and> out' = out @ out1 \<and> k' = k + k1)"
  by (cases r) auto

lemmas py_string_defs =
  isdigit_def isdigit_char_def py_int_def decimal_char_def decimal_value_def bind_def
  lower_def lower_char_def char_of_def bit_0

lemmas request_defs =
  request_input.simps(2) submitted_def validate_def prompt_text_def
  confirm_request_def confirm_check_def default_request_def

section \<open>request_input: default, quit value, confirmation\<close>

text \<open>
  C7. With \<open>has_default_val\<close>, an empty line is handled exactly as the line \<open>default_val\<close>
  is, and the default goes through every step of the loop body. It is compared with
  the quit value, and the request quits on a match. Under \<open>need_confirm\<close> the
  confirmation is asked about the default on the lines that follow: an exception of it
  leaves the function, and the answer \<open>n\<close> or \<open>no\<close> starts the request again. Then the
  validator, if there is one, is given the default: the default is accepted, or the
  error is printed and the request starts again or returns \<open>("", False)\<close>, or the
  exception of the validator leaves the function. When the default is not the quit
  value, no confirmation is asked and the validator (if any) accepts the default, the
  result is \<open>(default_val, True)\<close> after that one line.
\<close>

theorem request_input_default:
  assumes "has_default_val r"
  shows "request_input r ('''' # rest) = request_input r (default_val r # rest) \<and>
    request_input r ('''' # rest) =
      (if has_quit_val r \<and> default_val r = quit_val r
       then (prompt_text r @ ''Quit.'' @ NL, Inr ('''', False), 1)
       else
         (case (if need_confirm r then request_input (confirm_request (default_val r)) rest
                else ('''', Inr ('''', True), 0)) of
            (out, Inl ex, k) \<Rightarrow> (prompt_text r @ out, Inl ex, 1 + k)
          | (out, Inr (result, st), k) \<Rightarrow>
              if need_confirm r \<and> (result = ''n'' \<or> result = ''no'')
              then then_io (prompt_text r @ out) (1 + k) (request_input r (drop k rest))
              else
                (case check_func r of
                   None \<Rightarrow> (prompt_text r @ out, Inr (default_val r, True), 1 + k)
                 | Some f \<Rightarrow>
                     (case f (default_val r) of
                        Inl ex \<Rightarrow> (prompt_text r @ out, Inl ex, 1 + k)
                      | Inr True \<Rightarrow> (prompt_text r @ out, Inr (default_val r, True), 1 + k)
                      | Inr False \<Rightarrow>
                          if ask_again r
                          then then_io (prompt_text r @ out @ err_msg r
                                  @ '' Please enter again.'' @ NL) (1 + k)
                                 (request_input r (drop k rest))
                          else (prompt_text r @ out @ err_msg r @ '' '' @ NL,
                                Inr ('''', False), 1 + k))))) \<and>
    (\<not> (has_quit_val r \<and> default_val r = quit_val r) \<longrightarrow> \<not> need_confirm r \<longrightarrow>
       (check_func r = None \<or> (\<exists>f. check_func r = Some f \<and> f (default_val r) = Inr True)) \<longrightarrow>
       request_input r ('''' # rest) = (prompt_text r, Inr (default_val r, True), 1))"
  using assms
  by (auto simp add: request_input.simps(2) submitted_def validate_def Let_def
           split: prod.splits sum.splits option.splits bool.splits)

text \<open>
  The call of \<open>test_req\<close> on an empty line: its default \<open>4\<close> is accepted without the
  confirmation and after the answer \<open>y\<close>; after the answer \<open>no\<close> the prompt comes
  again; with \<open>4\<close> as quit value the request quits; and the default \<open>40\<close> fails the
  validator.
\<close>

theorem request_input_default_witness:
  "request_input (test_req\<lparr>need_confirm := False\<rparr>) [''''] =
     (NL @ ''Enter a number (Default [4]): '', Inr (''4'', True), 1) \<and>
   request_input test_req ['''', ''y''] =
     (NL @ ''Enter a number (Default [4]): Do you confirm the value [4] (yes/no): '',
      Inr (''4'', True), 2) \<and>
   request_input test_req ['''', ''no''] =
     (NL @ ''Enter a number (Default [4]): Do you confirm the value [4] (yes/no): ''
        @ NL @ ''Enter a number (Default [4]): '', Inl EOFError, 2) \<and>
   request_input (test_req\<lparr>quit_val := ''4''\<rparr>) ['''', ''y''] =
     (NL @ ''Enter a number (Default [4]): Quit.'' @ NL, Inr ('''', False), 1) \<and>
   request_input (test_req\<lparr>default_val := ''40'', need_confirm := False\<rparr>) [''''] =
     (NL @ ''Enter a number (Default [40]): Invalid value. '' @ NL, Inr ('''', False), 1)"
proof -
  have c: "test_req_check ''4'' = Inr True" "test_req_check ''40'' = Inr False"
    by (simp_all add: test_req_check_def py_string_defs)
  have y: "request_input (confirm_request ''4'') [''y''] =
      (''Do you confirm the value [4] (yes/no): '', Inr (''y'', True), 1)"
    "request_input (confirm_request ''4'') [''no''] =
      (''Do you confirm the value [4] (yes/no): '', Inr (''no'', True), 1)"
    by (simp_all add: request_defs py_string_defs)
  have h: "has_default_val (test_req\<lparr>need_confirm := False\<rparr>)" "has_default_val test_req"
    "has_default_val (test_req\<lparr>quit_val := ''4''\<rparr>)"
    "has_default_val (test_req\<lparr>default_val := ''40'', need_confirm := False\<rparr>)"
    by (simp_all add: test_req_def)
  have 1: "request_input (test_req\<lparr>need_confirm := False\<rparr>) [''''] =
     (NL @ ''Enter a number (Default [4]): '', Inr (''4'', True), 1)"
    using request_input_default [OF h(1), of "[]", THEN conjunct2, THEN conjunct1] c
    by (simp add: test_req_def prompt_text_def)
  have 2: "request_input test_req ['''', ''y''] =
     (NL @ ''Enter a number (Default [4]): Do you confirm the value [4] (yes/no): '',
      Inr (''4'', True), 2)"
    using request_input_default [OF h(2), of "[''y'']", THEN conjunct2, THEN conjunct1] c y
    by (simp add: test_req_def prompt_text_def)
  have 3: "request_input test_req ['''', ''no''] =
     (NL @ ''Enter a number (Default [4]): Do you confirm the value [4] (yes/no): ''
        @ NL @ ''Enter a number (Default [4]): '', Inl EOFError, 2)"
    using request_input_default [OF h(2), of "[''no'']", THEN conjunct2, THEN conjunct1] c y
    by (simp add: test_req_def prompt_text_def)
  have 4: "request_input (test_req\<lparr>quit_val := ''4''\<rparr>) ['''', ''y''] =
     (NL @ ''Enter a number (Default [4]): Quit.'' @ NL, Inr ('''', False), 1)"
    using request_input_default [OF h(3), of "[''y'']", THEN conjunct2, THEN conjunct1]
    by (simp add: test_req_def prompt_text_def)
  have 5: "request_input (test_req\<lparr>default_val := ''40'', need_confirm := False\<rparr>) [''''] =
     (NL @ ''Enter a number (Default [40]): Invalid value. '' @ NL, Inr ('''', False), 1)"
    using request_input_default [OF h(4), of "[]", THEN conjunct2, THEN conjunct1] c
    by (simp add: test_req_def prompt_text_def)
  from 1 2 3 4 5 show ?thesis by (intro conjI)
qed

text \<open>
  C3, as stated, fails: the quit check reads the value after the default has been put in
  place of an empty line. With the empty string as quit value and a default \<open>d\<close>, the raw
  line equals the quit value and the request returns \<open>("d", True)\<close>.
\<close>

theorem request_input_quit_raw_counterexample:
  "has_quit_val quit_on_empty \<and> quit_val quit_on_empty = '''' \<and>
   request_input quit_on_empty [''''] = (''p (Default [d]): '', Inr (''d'', True), 1)"
  by (simp add: quit_on_empty_def request_defs)

text \<open>
  C3, amended. With \<open>has_quit_val\<close>, when the submitted value (the raw line, or
  \<open>default_val\<close> for an empty line under \<open>has_default_val\<close>) equals \<open>quit_val\<close>, the
  function returns \<open>("", False)\<close> at once: it has read that one line and printed the
  prompt and \<open>Quit.\<close> only, whatever the validator and the other settings are. So a raw
  line equal to \<open>quit_val\<close> quits when it is not empty, or there is no default, or the
  default is the quit value too.
\<close>

theorem request_input_quit:
  assumes "has_quit_val r"
  shows "(submitted r raw = quit_val r \<longrightarrow>
            request_input r (raw # rest) = (prompt_text r @ ''Quit.'' @ NL, Inr ([], False), 1)) \<and>
         (raw = quit_val r \<longrightarrow>
            (raw \<noteq> [] \<or> \<not> has_default_val r \<or> default_val r = quit_val r) \<longrightarrow>
            request_input r (raw # rest) = (prompt_text r @ ''Quit.'' @ NL, Inr ([], False), 1))"
  using assms by (auto simp add: request_input.simps(2) submitted_def)

theorem request_input_quit_witness:
  "request_input test_req [''q'', ''no''] =
     (NL @ ''Enter a number (Default [4]): Quit.'' @ NL, Inr ([], False), 1)"
proof -
  have "has_quit_val test_req" by (simp add: test_req_def)
  from request_input_quit [OF this, of "''q''" "[''no'']", THEN conjunct2] show ?thesis
    by (simp add: test_req_def prompt_text_def)
qed

text \<open>
  C2. The validator of the confirmation accepts \<open>NO\<close>, and the answer \<open>NO\<close> confirms:
  the candidate \<open>5\<close> is validated and returned, where a lower-case \<open>no\<close> restarts the
  request.
\<close>

theorem request_input_confirm_upper_no:
  "confirm_check ''NO'' = Inr True \<and>
   request_input ((default_request ''p'')\<lparr>need_confirm := True\<rparr>) [''5'', ''NO''] =
     (''p: Do you confirm the value [5] (yes/no): '', Inr (''5'', True), 2) \<and>
   request_input ((default_request ''p'')\<lparr>need_confirm := True\<rparr>) [''5'', ''no''] =
     (''p: Do you confirm the value [5] (yes/no): p: '', Inl EOFError, 2)"
  by (simp add: request_defs py_string_defs)

section \<open>request_input: validation and exceptions\<close>

lemma request_input_Cons_cases [consumes 1, case_names quit confirm_raises again returns raises]:
  assumes "request_input r (raw # rest) = (out, res, k)"
  obtains
    (quit) "has_quit_val r" "submitted r raw = quit_val r" "res = Inr ('''', False)" "k = 1"
  | (confirm_raises) o1 k1 ex where
      "need_confirm r"
      "request_input (confirm_request (submitted r raw)) rest = (o1, Inl ex, k1)"
      "res = Inl ex" "k = 1 + k1"
  | (again) o1 v1 k1 o2 k2 where
      "(if need_confirm r then request_input (confirm_request (submitted r raw)) rest
        else ('''', Inr ('''', True), 0)) = (o1, Inr v1, k1)"
      "request_input r (drop k1 rest) = (o2, res, k2)" "k = 1 + k1 + k2"
  | (returns) o1 v1 k1 msg v where
      "(if need_confirm r then request_input (confirm_request (submitted r raw)) rest
        else ('''', Inr ('''', True), 0)) = (o1, Inr v1, k1)"
      "validate r (submitted r raw) = (msg, Return v)" "res = Inr v" "k = 1 + k1"
  | (raises) o1 v1 k1 msg ex where
      "(if need_confirm r then request_input (confirm_request (submitted r raw)) rest
        else ('''', Inr ('''', True), 0)) = (o1, Inr v1, k1)"
      "validate r (submitted r raw) = (msg, Raise ex)" "res = Inl ex" "k = 1 + k1"
proof (cases "has_quit_val r \<and> submitted r raw = quit_val r")
  case True
  with assms show ?thesis by (intro quit) (simp_all add: request_input.simps(2))
next
  case nq: False
  obtain o1 r1 k1 where c: "(if need_confirm r
      then request_input (confirm_request (submitted r raw)) rest
      else ('''', Inr ('''', True), 0)) = (o1, r1, k1)"
    using prod_cases3 by blast
  show ?thesis
  proof (cases r1)
    case (Inl ex)
    with assms nq c show ?thesis
      by (intro confirm_raises [of o1 ex k1])
         (auto simp add: request_input.simps(2) split: if_splits)
  next
    case (Inr v1)
    obtain result st where v1: "v1 = (result, st)" by (cases v1)
    obtain o2 r2 k2 where n: "request_input r (drop k1 rest) = (o2, r2, k2)"
      using prod_cases3 by blast
    obtain msg s where v: "validate r (submitted r raw) = (msg, s)" by (cases "validate r (submitted r raw)")
    show ?thesis
    proof (cases "need_confirm r \<and> result \<in> set [''n'', ''no'']")
      case True
      with assms nq c Inr v1 n show ?thesis
        by (intro again [of o1 v1 k1 o2 k2]) (simp_all add: request_input.simps(2) del: set_simps)
    next
      case False
      show ?thesis
      proof (cases s)
        case Continue
        with assms nq c Inr v1 n v False show ?thesis
          by (intro again [of o1 v1 k1 o2 k2]) (simp_all add: request_input.simps(2) del: set_simps)
      next
        case (Return w)
        with assms nq c Inr v1 n v False show ?thesis
          by (intro returns [of o1 v1 k1 msg w]) (simp_all add: request_input.simps(2) del: set_simps)
      next
        case (Raise ex)
        with assms nq c Inr v1 n v False show ?thesis
          by (intro raises [of o1 v1 k1 msg ex]) (simp_all add: request_input.simps(2) del: set_simps)
      qed
    qed
  qed
qed

lemma request_input_le:
  "request_input r ins = (out, res, k) \<Longrightarrow> k \<le> length ins"
proof (induction "length ins" arbitrary: r ins out res k rule: less_induct)
  case less
  show ?case
  proof (cases ins)
    case Nil
    with less.prems show ?thesis by simp
  next
    case (Cons raw rest)
    have IH: "\<And>r' ins' out' res' k'. length ins' \<le> length rest \<Longrightarrow>
        request_input r' ins' = (out', res', k') \<Longrightarrow> k' \<le> length ins'"
      using less.hyps Cons by simp
    have conf: "k1 \<le> length rest"
      if "(if need_confirm r then request_input (confirm_request (submitted r raw)) rest
           else ('''', Inr ('''', True), 0)) = (o1, r1, k1)" for o1 r1 k1
      using that IH [of rest "confirm_request (submitted r raw)" o1 r1 k1]
      by (auto split: if_splits)
    from less.prems [unfolded Cons] show ?thesis
    proof (cases rule: request_input_Cons_cases)
      case quit
      then show ?thesis using Cons by simp
    next
      case (confirm_raises o1 k1 ex)
      then show ?thesis using Cons conf [of o1 "Inl ex" k1] by simp
    next
      case (again o1 v1 k1 o2 k2)
      then show ?thesis
        using Cons conf [of o1 "Inr v1" k1] IH [of "drop k1 rest" r o2 res k2] by simp
    next
      case (returns o1 v1 k1 msg v)
      then show ?thesis using Cons conf [of o1 "Inr v1" k1] by simp
    next
      case (raises o1 v1 k1 msg ex)
      then show ?thesis using Cons conf [of o1 "Inr v1" k1] by simp
    qed
  qed
qed

lemma validate_Raise:
  "validate r v = (msg, Raise ex) \<Longrightarrow> \<exists>f. check_func r = Some f \<and> f v = Inl ex"
  by (auto simp: validate_def split: option.splits sum.splits bool.splits if_splits)

lemma request_input_raises:
  "request_input r ins = (out, Inl ex, k) \<Longrightarrow>
     (ex = EOFError \<and> k = length ins) \<or> (\<exists>f v. check_func r = Some f \<and> f v = Inl ex)"
proof (induction "length ins" arbitrary: r ins out k rule: less_induct)
  case less
  show ?case
  proof (cases ins)
    case Nil
    with less.prems show ?thesis by simp
  next
    case (Cons raw rest)
    have IH: "\<And>r' ins' out' k'. length ins' \<le> length rest \<Longrightarrow>
        request_input r' ins' = (out', Inl ex, k') \<Longrightarrow>
        (ex = EOFError \<and> k' = length ins') \<or> (\<exists>f v. check_func r' = Some f \<and> f v = Inl ex)"
      using less.hyps Cons by simp
    from less.prems [unfolded Cons] show ?thesis
    proof (cases rule: request_input_Cons_cases)
      case quit
      then show ?thesis by simp
    next
      case (confirm_raises o1 k1 ex')
      then show ?thesis
        using Cons IH [of rest "confirm_request (submitted r raw)" o1 k1]
        by (auto simp: confirm_request_def confirm_check_def)
    next
      case (again o1 v1 k1 o2 k2)
      have "k1 \<le> length rest"
        using again(1) request_input_le [of "confirm_request (submitted r raw)" rest o1 "Inr v1" k1]
        by (auto split: if_splits)
      then show ?thesis
        using again Cons IH [of "drop k1 rest" r o2 k2] by auto
    next
      case (returns o1 v1 k1 msg v)
      then show ?thesis by simp
    next
      case (raises o1 v1 k1 msg ex')
      then show ?thesis using validate_Raise [of r "submitted r raw" msg ex'] by auto
    qed
  qed
qed

text \<open>
  C8, as stated, fails: \<open>request_input\<close> does raise. The validator of the menu, given a
  superscript two, passes \<open>isdigit\<close> and raises \<open>ValueError\<close> in \<open>int\<close>; nothing catches
  it.
\<close>

theorem request_input_raises_counterexample:
  "request_input (option_request one_option) [[CHR 0xB2]] =
     (NL @ ''Your option: '', Inl ValueError, 1)"
  by (simp add: option_request_def option_check_def one_option_def request_defs py_string_defs)

text \<open>
  C8, amended. With a validator \<open>f\<close>: when the submitted value reaches the validation
  (it is not the quit value and, under \<open>need_confirm\<close>, the confirmation \<open>out, result\<close>
  read \<open>k\<close> lines and is not \<open>n\<close> or \<open>no\<close>) and \<open>f\<close> returns \<open>False\<close> on it, the
  error message is printed once; with \<open>ask_again\<close> the loop then starts again on the
  remaining lines, without it the function returns \<open>("", False)\<close>. The function has no
  exception of its own: one that leaves it is \<open>EOFError\<close> of \<open>input()\<close> with every line
  read, or an exception that \<open>f\<close> raised; and an exception that \<open>f\<close> raises on the
  submitted value does leave it, uncaught.
\<close>

theorem request_input_invalid:
  assumes "check_func r = Some f"
  shows "(\<forall>raw rest out result st k.
            \<not> (has_quit_val r \<and> submitted r raw = quit_val r) \<longrightarrow>
            (if need_confirm r then request_input (confirm_request (submitted r raw)) rest
             else ('''', Inr ('''', True), 0)) = (out, Inr (result, st), k) \<longrightarrow>
            \<not> (need_confirm r \<and> result \<in> set [''n'', ''no'']) \<longrightarrow>
            f (submitted r raw) = Inr False \<longrightarrow>
            request_input r (raw # rest) =
              (if ask_again r
               then then_io (prompt_text r @ out @ err_msg r @ '' Please enter again.'' @ NL)
                      (1 + k) (request_input r (drop k rest))
               else (prompt_text r @ out @ err_msg r @ '' '' @ NL, Inr ('''', False), 1 + k)))
       \<and> (\<forall>ins out ex k. request_input r ins = (out, Inl ex, k) \<longrightarrow>
            (ex = EOFError \<and> k = length ins) \<or> (\<exists>v. f v = Inl ex))
       \<and> (\<forall>raw rest out result st k ex.
            \<not> (has_quit_val r \<and> submitted r raw = quit_val r) \<longrightarrow>
            (if need_confirm r then request_input (confirm_request (submitted r raw)) rest
             else ([], Inr ([], True), 0)) = (out, Inr (result, st), k) \<longrightarrow>
            \<not> (need_confirm r \<and> result \<in> set [''n'', ''no'']) \<longrightarrow>
            f (submitted r raw) = Inl ex \<longrightarrow>
            request_input r (raw # rest) = (prompt_text r @ out, Inl ex, 1 + k))"
proof (intro conjI allI impI)
  fix raw rest out result st k
  assume "\<not> (has_quit_val r \<and> submitted r raw = quit_val r)"
    and "(if need_confirm r then request_input (confirm_request (submitted r raw)) rest
          else ('''', Inr ('''', True), 0)) = (out, Inr (result, st), k)"
    and "\<not> (need_confirm r \<and> result \<in> set [''n'', ''no''])"
    and "f (submitted r raw) = Inr False"
  with assms show "request_input r (raw # rest) =
              (if ask_again r
               then then_io (prompt_text r @ out @ err_msg r @ '' Please enter again.'' @ NL)
                      (1 + k) (request_input r (drop k rest))
               else (prompt_text r @ out @ err_msg r @ '' '' @ NL, Inr ('''', False), 1 + k))"
    by (auto simp add: request_input.simps(2) validate_def Let_def)
next
  fix ins out ex k
  assume "request_input r ins = (out, Inl ex, k)"
  from request_input_raises [OF this] assms
  show "(ex = EOFError \<and> k = length ins) \<or> (\<exists>v. f v = Inl ex)" by auto
next
  fix raw rest out result st k ex
  assume "\<not> (has_quit_val r \<and> submitted r raw = quit_val r)"
    and "(if need_confirm r then request_input (confirm_request (submitted r raw)) rest
          else ([], Inr ([], True), 0)) = (out, Inr (result, st), k)"
    and "\<not> (need_confirm r \<and> result \<in> set [''n'', ''no''])"
    and "f (submitted r raw) = Inl ex"
  with assms show "request_input r (raw # rest) = (prompt_text r @ out, Inl ex, 1 + k)"
    by (auto simp add: request_input.simps(2) validate_def Let_def)
qed

theorem request_input_invalid_witness:
  "request_input (test_req\<lparr>need_confirm := False\<rparr>) [''10'', ''5''] =
     (NL @ ''Enter a number (Default [4]): Invalid value. '' @ NL, Inr ('''', False), 1) \<and>
   request_input (test_req\<lparr>need_confirm := False, ask_again := True\<rparr>) [''10'', ''5''] =
     (NL @ ''Enter a number (Default [4]): Invalid value. Please enter again.'' @ NL
        @ NL @ ''Enter a number (Default [4]): '', Inr (''5'', True), 2)"
proof -
  have c: "test_req_check ''10'' = Inr False" "test_req_check ''5'' = Inr True"
    by (simp_all add: test_req_check_def py_string_defs)
  have 1: "check_func (test_req\<lparr>need_confirm := False\<rparr>) = Some test_req_check"
    by (simp add: test_req_def)
  have 2: "check_func (test_req\<lparr>need_confirm := False, ask_again := True\<rparr>) = Some test_req_check"
    by (simp add: test_req_def)
  show ?thesis
    using request_input_invalid [OF 1, THEN conjunct1, rule_format,
        of "''10''" "[''5'']" "''''" "''''" True 0]
      request_input_invalid [OF 2, THEN conjunct1, rule_format,
        of "''10''" "[''5'']" "''''" "''''" True 0] c
    by (simp add: test_req_def submitted_def prompt_text_def request_input.simps(2) validate_def)
qed

section \<open>_request_option\<close>

lemma request_input_option_Cons:
  "request_input (option_request self) (raw # rest) =
     (case option_check self raw of
        Inl ex \<Rightarrow> (NL @ ''Your option: '', Inl ex, 1)
      | Inr True \<Rightarrow> (NL @ ''Your option: '', Inr (raw, True), 1)
      | Inr False \<Rightarrow> (NL @ ''Your option: No such option. '' @ NL, Inr ('''', False), 1))"
  by (simp add: request_input.simps(2) option_request_def submitted_def validate_def
        prompt_text_def split: sum.splits bool.splits)

lemma option_check_True:
  assumes "option_check self x = Inr True"
  shows "isdigit x \<and> (\<exists>v. py_int x = Inr v \<and> 1 \<le> v \<and> v \<le> int (length (children self)))"
  using assms by (auto simp: option_check_def bind_def split: if_splits sum.splits)

lemma request_option_cases:
  "(case request_input (option_request self) ins of
      (out, Inl ex, k) \<Rightarrow> request_option self ins = (out, Inl ex, k)
    | (out, Inr (choice, accepted), k) \<Rightarrow>
        if accepted
        then isdigit choice \<and>
             (\<exists>v. py_int choice = Inr v \<and> 1 \<le> v \<and> v \<le> int (length (children self)) \<and>
                  nat (v - 1) < length (children self) \<and>
                  request_option self ins = (out, Inr (Some (children self ! nat (v - 1))), k))
        else request_option self ins = (out, Inr None, k))"
proof (cases ins)
  case Nil
  then show ?thesis by (simp add: request_option_def)
next
  case (Cons raw rest)
  show ?thesis
  proof (cases "option_check self raw")
    case (Inl ex)
    then show ?thesis using Cons by (simp add: request_option_def request_input_option_Cons)
  next
    case (Inr b)
    show ?thesis
    proof (cases b)
      case True
      with Inr option_check_True [of self raw] obtain v where
        v: "isdigit raw" "py_int raw = Inr v" "1 \<le> v" "v \<le> int (length (children self))"
        by auto
      then have "getitem (children self) (v - 1) = Inr (children self ! nat (v - 1))"
        by (simp add: getitem_def)
      with v True Inr Cons show ?thesis
        by (simp add: request_option_def request_input_option_Cons bind_def)
    next
      case False
      with Inr Cons show ?thesis by (simp add: request_option_def request_input_option_Cons)
    qed
  qed
qed

text \<open>
  C10. Whatever \<open>request_input\<close> gives for the choice: an accepted choice is a string of
  digits whose value \<open>v\<close> is between 1 and the number of children, \<open>v - 1\<close> is an index
  of \<open>children\<close>, and \<open>_request_option\<close> returns that child; a choice that is not
  accepted gives \<open>None\<close>, and an exception passes through. No \<open>IndexError\<close> arises.
\<close>

theorem request_option_in_bounds:
  "(case request_input (option_request self) ins of
      (out, Inl ex, k) \<Rightarrow> request_option self ins = (out, Inl ex, k)
    | (out, Inr (choice, accepted), k) \<Rightarrow>
        if accepted
        then isdigit choice \<and>
             (\<exists>v. py_int choice = Inr v \<and> 1 \<le> v \<and> v \<le> int (length (children self)) \<and>
                  nat (v - 1) < length (children self) \<and>
                  request_option self ins = (out, Inr (Some (children self ! nat (v - 1))), k))
        else request_option self ins = (out, Inr None, k)) \<and>
   (\<forall>out k. request_option self ins \<noteq> (out, Inl IndexError, k))"
proof -
  have "request_option self ins \<noteq> (out, Inl IndexError, k)" for out k
  proof (cases ins)
    case Nil
    then show ?thesis by (simp add: request_option_def)
  next
    case (Cons raw rest)
    have "ex = ValueError" if "option_check self raw = Inl ex" for ex
      using that by (auto simp: option_check_def bind_def py_int_def split: if_splits)
    with Cons request_option_cases [of self ins] show ?thesis
      by (auto simp: request_input_option_Cons split: sum.splits bool.splits)
  qed
  with request_option_cases [of self ins] show ?thesis by blast
qed

theorem request_option_in_bounds_witness:
  "request_option one_option [''1''] =
     (NL @ ''Your option: '', Inr (Some (children one_option ! 0)), 1)"
proof -
  have "request_input (option_request one_option) [''1''] =
      (NL @ ''Your option: '', Inr (''1'', True), 1)"
    by (simp add: request_input_option_Cons option_check_def one_option_def add_option_def
          py_string_defs)
  moreover have "py_int ''1'' = Inr 1"
    by (simp add: py_string_defs)
  ultimately show ?thesis
    using request_option_in_bounds [of one_option "[''1'']", THEN conjunct1] by auto
qed

section \<open>add_option\<close>

lemma endswith_marker [simp]: "endswith (s @ '' [d]'') '' [d]''"
  by (simp add: endswith_def)

lemma add_options_last:
  "calls \<noteq> [] \<Longrightarrow>
     exec_func (add_options self calls) = Enter_next_level \<and>
     title (add_options self calls) =
       (if endswith (title self) '' [d]'' then title self else title self @ '' [d]'') \<and>
     children (add_options self calls) =
       children self @ map (\<lambda>(t, f, a). init t f a (Some (menu_config self)) False) calls"
proof (induction self calls rule: add_options.induct)
  case (1 self)
  then show ?case by simp
next
  case (2 self t f a calls)
  show ?case
  proof (cases calls)
    case Nil
    then show ?thesis by (simp add: add_option_def)
  next
    case (Cons c cs)
    with 2 show ?thesis by (simp add: add_option_def)
  qed
qed

text \<open>
  C6, as stated, fails: on a node whose title already ends with the marker, \<open>add_option\<close>
  adds a child and appends nothing, so the marker has not been appended once.
\<close>

theorem add_option_marker_counterexample:
  "children (add_option marked_leaf ''Open'' None 0) \<noteq> [] \<and>
   title (add_option marked_leaf ''Open'' None 0) = title marked_leaf \<and>
   title (add_option marked_leaf ''Open'' None 0) \<noteq> title marked_leaf @ '' [d]''"
  by (simp add: add_option_def marked_leaf_def init_def endswith_def)

text \<open>
  C6, amended. After one or more \<open>add_option\<close> calls on a node, however many: the node
  has children (its own and one for each call, in order), its \<open>exec_func\<close> is
  \<open>_enter_next_level\<close> whatever callable it was created with, and its title is the title
  before the calls followed by the marker once, or that title unchanged when it already
  ended with the marker.
\<close>

theorem add_options_entry:
  assumes "calls \<noteq> []"
  shows "children (add_options self calls) \<noteq> [] \<and>
     length (children (add_options self calls)) = length (children self) + length calls \<and>
     exec_func (add_options self calls) = Enter_next_level \<and>
     title (add_options self calls) =
       (if endswith (title self) '' [d]'' then title self else title self @ '' [d]'')"
  using add_options_last [OF assms, of self] assms by simp

theorem add_options_entry_witness:
  "exec_func (add_options (init ''New'' (Some (Host ''hello'' None)) 0 None False)
      [(''[Back]'', Some Return_previous_level, 0), (''New File'', None, 0),
       (''[Exit]'', Some Quiting_level, 0)]) = Enter_next_level \<and>
   title (add_options (init ''New'' (Some (Host ''hello'' None)) 0 None False)
      [(''[Back]'', Some Return_previous_level, 0), (''New File'', None, 0),
       (''[Exit]'', Some Quiting_level, 0)]) = ''New [d]'' \<and>
   length (children (add_options (init ''New'' (Some (Host ''hello'' None)) 0 None False)
      [(''[Back]'', Some Return_previous_level, 0), (''New File'', None, 0),
       (''[Exit]'', Some Quiting_level, 0)])) = 3"
  using add_options_entry [of "[(''[Back]'', Some Return_previous_level, 0), (''New File'', None, 0),
       (''[Exit]'', Some Quiting_level, 0)]" "init ''New'' (Some (Host ''hello'' None)) 0 None False"]
  by (simp add: init_def endswith_def)

section \<open>_draw_menu\<close>













section \<open>The loop of a level\<close>

lemma while_loop_exit:
  "state = Some RETURN_CODE \<or> state = Some QUIT_CODE \<Longrightarrow>
     while_loop self state ins = ('''', Inr state, 0)"
  by (subst while_loop.simps) auto

lemma while_loop_raise:
  assumes "state \<noteq> Some RETURN_CODE" and "state \<noteq> Some QUIT_CODE"
    and "redraw self state = Inl ex"
  shows "while_loop self state ins = ('''', Inl ex, 0)"
  by (subst while_loop.simps) (simp add: assms)

lemma while_loop_step:
  assumes "state \<noteq> Some RETURN_CODE" and "state \<noteq> Some QUIT_CODE"
    and "redraw self state = Inr shown"
  shows "while_loop self state ins =
     (case request_option self ins of
        (out, Inl ex, k) \<Rightarrow> (shown @ out, Inl ex, k)
      | (out, Inr None, k) \<Rightarrow> then_io (shown @ out) k (while_loop self None (drop k ins))
      | (out, Inr (Some opt), k) \<Rightarrow>
          (case call_exec_func opt (drop k ins) of
             (out', Inl ex, k') \<Rightarrow> (shown @ out @ out', Inl ex, k + k')
           | (out', Inr state', k') \<Rightarrow>
               then_io (shown @ out @ out') (k + k')
                 (while_loop self state' (drop (k + k') ins))))"
  by (subst while_loop.simps) (simp add: assms)

lemma draw_menu_nonempty: "draw_menu self = Inr menu \<Longrightarrow> menu \<noteq> ''''"
  by (auto simp: draw_menu_def bind_def Let_def split: sum.splits)

lemma codes_distinct:
  "RETURN_CODE \<noteq> QUIT_CODE" "ENTER_CODE \<noteq> QUIT_CODE" "ENTER_CODE \<noteq> RETURN_CODE"
  by (simp_all add: RETURN_CODE_def QUIT_CODE_def ENTER_CODE_def)

lemma while_loop_Inr:
  "while_loop self state ins = (out, Inr st, k) \<Longrightarrow>
     st = Some RETURN_CODE \<or> st = Some QUIT_CODE"
proof (induction "length ins" arbitrary: state ins out k rule: less_induct)
  case less
  show ?case
  proof (cases "state = Some RETURN_CODE \<or> state = Some QUIT_CODE")
    case True
    with less.prems show ?thesis by (auto simp: while_loop_exit)
  next
    case False
    show ?thesis
    proof (cases "redraw self state")
      case (Inl ex)
      with False less.prems show ?thesis by (simp add: while_loop_raise)
    next
      case (Inr shown)
      obtain o1 r1 k1 where ro: "request_option self ins = (o1, r1, k1)"
        using prod_cases3 by blast
      note step = while_loop_step [OF _ _ Inr, of ins]
      show ?thesis
      proof (cases r1)
        case (Inl ex)
        with False less.prems ro step show ?thesis by simp
      next
        case r1: (Inr choice)
        from ro r1 request_option_reads [of self ins o1 choice k1]
        have short: "\<And>j. length (drop (k1 + j) ins) < length ins" by auto
        show ?thesis
        proof (cases choice)
          case None
          with False less.prems ro r1 step
          obtain o2 k2 where "while_loop self None (drop k1 ins) = (o2, Inr st, k2)"
            by (auto simp: then_io_Inr)
          with less.hyps [of "drop k1 ins" None o2 k2] short [of 0] show ?thesis by simp
        next
          case (Some opt)
          obtain o3 r3 k3 where ce: "call_exec_func opt (drop k1 ins) = (o3, r3, k3)"
            using prod_cases3 by blast
          show ?thesis
          proof (cases r3)
            case (Inl ex)
            with False less.prems ro r1 Some ce step show ?thesis by simp
          next
            case r3: (Inr state')
            with False less.prems ro r1 Some ce step
            obtain o2 k2 where "while_loop self state' (drop (k1 + k3) ins) = (o2, Inr st, k2)"
              by (auto simp: then_io_Inr)
            with less.hyps [of "drop (k1 + k3) ins" state' o2 k2] short [of k3]
            show ?thesis by simp
          qed
        qed
      qed
    qed
  qed
qed

lemma enter_next_level_code:
  assumes "enter_next_level self ins = (out, Inr code, k)"
  shows "(while_loop self (Some ENTER_CODE) ins = (out, Inr (Some QUIT_CODE), k) \<and> code = QUIT_CODE) \<or>
         (while_loop self (Some ENTER_CODE) ins = (out, Inr (Some RETURN_CODE), k) \<and> code = ENTER_CODE)"
proof -
  obtain o1 r1 k1 where w: "while_loop self (Some ENTER_CODE) ins = (o1, r1, k1)"
    using prod_cases3 by blast
  with assms obtain st where r1: "r1 = Inr st" and eq: "o1 = out" "k1 = k"
      and code: "code = (if st = Some QUIT_CODE then QUIT_CODE else ENTER_CODE)"
    by (subst (asm) enter_next_level.simps) (auto split: sum.splits)
  from w r1 while_loop_Inr have "st = Some RETURN_CODE \<or> st = Some QUIT_CODE" by blast
  with w r1 eq code show ?thesis by (auto simp: codes_distinct)
qed

lemma call_enter_next_level:
  assumes "exec_func opt = Enter_next_level" and "args opt = 0"
  shows "call_exec_func opt ins =
     (case enter_next_level opt ins of
        (out, Inl ex, k) \<Rightarrow> (out, Inl ex, k)
      | (out, Inr code, k) \<Rightarrow> (out, Inr (Some code), k))"
  by (subst call_exec_func.simps) (simp add: assms)

lemma enter_next_level_quit:
  "while_loop self (Some ENTER_CODE) ins = (out, Inr (Some QUIT_CODE), k) \<Longrightarrow>
     enter_next_level self ins = (out, Inr QUIT_CODE, k)"
  by (subst enter_next_level.simps) simp

lemma enter_next_level_return:
  "while_loop self (Some ENTER_CODE) ins = (out, Inr (Some RETURN_CODE), k) \<Longrightarrow>
     enter_next_level self ins = (out, Inr ENTER_CODE, k)"
  by (subst enter_next_level.simps) (simp add: codes_distinct)

lemma unwinds_while_loop:
  "unwinds self state ins out k \<Longrightarrow> while_loop self state ins = (out, Inr (Some QUIT_CODE), k)"
proof (induction rule: unwinds.induct)
  case (quit_here state self shown ins out opt k out' k')
  then show ?case
    by (simp add: while_loop_step while_loop_exit)
next
  case (quit_below state self shown ins out opt k out' k')
  from quit_below.IH have "enter_next_level opt (drop k ins) = (out', Inr QUIT_CODE, k')"
    by (rule enter_next_level_quit)
  with quit_below show ?case
    by (simp add: while_loop_step while_loop_exit call_enter_next_level)
next
  case (quit_later state self shown ins out choice k out' state' k' out'' k'')
  then show ?case
    by (cases choice) (simp_all add: while_loop_step add.assoc)
qed

lemma call_exec_func_frame:
  assumes "exec_func opt = Enter_next_level"
    and "call_exec_func opt ins = (out, Inr (Some code), k)"
  shows "args opt = 0 \<and> enter_next_level opt ins = (out, Inr code, k)"
  using assms
  by (subst (asm) call_exec_func.simps) (auto split: if_splits prod.splits sum.splits)

lemma while_loop_quit_unwinds:
  "while_loop self state ins = (out, Inr (Some QUIT_CODE), k) \<Longrightarrow> state \<noteq> Some QUIT_CODE \<Longrightarrow>
     unwinds self state ins out k"
proof (induction "length ins" arbitrary: self state ins out k rule: less_induct)
  case less
  have nr: "state \<noteq> Some RETURN_CODE"
    using less.prems by (auto simp: while_loop_exit codes_distinct)
  note nq = less.prems(2)
  show ?case
  proof (cases "redraw self state")
    case (Inl ex)
    with nr nq less.prems show ?thesis by (simp add: while_loop_raise)
  next
    case (Inr shown)
    obtain o1 r1 k1 where ro: "request_option self ins = (o1, r1, k1)"
      using prod_cases3 by blast
    note step = while_loop_step [OF nr nq Inr, of ins]
    show ?thesis
    proof (cases r1)
      case (Inl ex)
      with less.prems ro step show ?thesis by simp
    next
      case r1: (Inr choice)
      from ro r1 request_option_reads [of self ins o1 choice k1]
      have short: "\<And>j. length (drop (k1 + j) ins) < length ins" by auto
      show ?thesis
      proof (cases choice)
        case None
        with less.prems ro r1 step
        obtain o2 k2 where w: "while_loop self None (drop k1 ins) = (o2, Inr (Some QUIT_CODE), k2)"
          and eq: "out = (shown @ o1) @ o2" "k = k1 + k2"
          by (auto simp: then_io_Inr)
        from less.hyps [OF _ w] short [of 0]
        have "unwinds self None (drop (k1 + 0) ins) o2 k2" by simp
        from unwinds.quit_later [OF nr nq Inr ro [unfolded r1], of "[]" None 0 o2 k2] this None
        show ?thesis by (simp add: eq)
      next
        case (Some opt)
        obtain o3 r3 k3 where ce: "call_exec_func opt (drop k1 ins) = (o3, r3, k3)"
          using prod_cases3 by blast
        show ?thesis
        proof (cases r3)
          case (Inl ex)
          with less.prems ro r1 Some ce step show ?thesis by simp
        next
          case r3: (Inr state')
          with less.prems ro r1 Some ce step
          obtain o2 k2 where
            w: "while_loop self state' (drop (k1 + k3) ins) = (o2, Inr (Some QUIT_CODE), k2)"
            and eq: "out = (shown @ o1 @ o3) @ o2" "k = (k1 + k3) + k2"
            by (auto simp: then_io_Inr)
          show ?thesis
          proof (cases "state' = Some QUIT_CODE")
            case True
            with w have e2: "o2 = []" "k2 = 0" by (simp_all add: while_loop_exit)
            show ?thesis
            proof (cases "exec_func opt = Enter_next_level")
              case False
              from unwinds.quit_here [OF nr nq Inr ro [unfolded r1 Some] False
                  ce [unfolded r3 True]]
              show ?thesis by (simp add: eq e2)
            next
              case frame: True
              from call_exec_func_frame [OF frame ce [unfolded r3 True]]
              have a0: "args opt = 0"
                and en: "enter_next_level opt (drop k1 ins) = (o3, Inr QUIT_CODE, k3)"
                by simp_all
              from enter_next_level_code [OF en]
              have "while_loop opt (Some ENTER_CODE) (drop k1 ins) = (o3, Inr (Some QUIT_CODE), k3)"
                by (auto simp: codes_distinct codes_distinct [THEN not_sym])
              from less.hyps [OF _ this] short [of 0]
              have "unwinds opt (Some ENTER_CODE) (drop k1 ins) o3 k3"
                by (simp add: codes_distinct)
              from unwinds.quit_below [OF nr nq Inr ro [unfolded r1 Some] frame a0 this]
              show ?thesis by (simp add: eq e2)
            qed
          next
            case False
            from less.hyps [OF _ w False] short [of k3]
            have "unwinds self state' (drop (k1 + k3) ins) o2 k2" by simp
            from unwinds.quit_later [OF nr nq Inr ro [unfolded r1], of o3 state' k3 o2 k2]
              this Some ce r3
            show ?thesis by (simp add: eq)
          qed
        qed
      qed
    qed
  qed
qed

section \<open>Signals between levels\<close>

text \<open>
  C1. When \<open>_enter_next_level\<close> returns, its loop has ended with the quit code and it
  returns the quit code, or with the return code and it returns the enter code. A quit
  code produced at any depth below a level (\<open>unwinds\<close>) ends the loop of that level with
  the quit code, and the level returns it, with no line read and nothing printed after
  the call that produced it; so it passes every enclosing level up to the root. A
  return code from the chosen option ends the loop of this level alone, which returns
  the enter code; the enclosing level, given the enter code by its child level, goes on
  with its loop in the state of a fresh entry. A loop ends with the quit code in no
  other way: when it does, and was not started on the quit code, a quit was produced
  below it. After any number of rounds, a loop that ends with the quit code makes the
  level return the quit code, and one that ends with the return code makes it return
  the enter code.
\<close>

theorem enter_next_level_propagates:
  "(\<forall>out code k. enter_next_level self ins = (out, Inr code, k) \<longrightarrow>
      (while_loop self (Some ENTER_CODE) ins = (out, Inr (Some QUIT_CODE), k) \<and> code = QUIT_CODE) \<or>
      (while_loop self (Some ENTER_CODE) ins = (out, Inr (Some RETURN_CODE), k) \<and> code = ENTER_CODE))
   \<and> (\<forall>state out k. unwinds self state ins out k \<longrightarrow>
         while_loop self state ins = (out, Inr (Some QUIT_CODE), k))
   \<and> (\<forall>out k. unwinds self (Some ENTER_CODE) ins out k \<longrightarrow>
         enter_next_level self ins = (out, Inr QUIT_CODE, k))
   \<and> (\<forall>state shown out opt k out' k'.
         state \<noteq> Some RETURN_CODE \<longrightarrow> state \<noteq> Some QUIT_CODE \<longrightarrow>
         redraw self state = Inr shown \<longrightarrow>
         request_option self ins = (out, Inr (Some opt), k) \<longrightarrow>
         call_exec_func opt (drop k ins) = (out', Inr (Some RETURN_CODE), k') \<longrightarrow>
         while_loop self state ins = (shown @ out @ out', Inr (Some RETURN_CODE), k + k') \<and>
         (state = Some ENTER_CODE \<longrightarrow>
            enter_next_level self ins = (shown @ out @ out', Inr ENTER_CODE, k + k')))
   \<and> (\<forall>state shown out opt k out' k'.
         state \<noteq> Some RETURN_CODE \<longrightarrow> state \<noteq> Some QUIT_CODE \<longrightarrow>
         redraw self state = Inr shown \<longrightarrow>
         request_option self ins = (out, Inr (Some opt), k) \<longrightarrow>
         exec_func opt = Enter_next_level \<longrightarrow> args opt = 0 \<longrightarrow>
         enter_next_level opt (drop k ins) = (out', Inr ENTER_CODE, k') \<longrightarrow>
         while_loop self state ins =
           then_io (shown @ out @ out') (k + k')
             (while_loop self (Some ENTER_CODE) (drop (k + k') ins)))
   \<and> (\<forall>state out k. state \<noteq> Some QUIT_CODE \<longrightarrow>
         while_loop self state ins = (out, Inr (Some QUIT_CODE), k) \<longrightarrow>
         unwinds self state ins out k)
   \<and> (\<forall>out k. while_loop self (Some ENTER_CODE) ins = (out, Inr (Some QUIT_CODE), k) \<longrightarrow>
         enter_next_level self ins = (out, Inr QUIT_CODE, k))
   \<and> (\<forall>out k. while_loop self (Some ENTER_CODE) ins = (out, Inr (Some RETURN_CODE), k) \<longrightarrow>
         enter_next_level self ins = (out, Inr ENTER_CODE, k))"
proof (intro conjI allI impI)
  fix out code k
  assume "enter_next_level self ins = (out, Inr code, k)"
  then show "(while_loop self (Some ENTER_CODE) ins = (out, Inr (Some QUIT_CODE), k) \<and> code = QUIT_CODE) \<or>
      (while_loop self (Some ENTER_CODE) ins = (out, Inr (Some RETURN_CODE), k) \<and> code = ENTER_CODE)"
    by (rule enter_next_level_code)
next
  fix state out k
  assume "unwinds self state ins out k"
  then show "while_loop self state ins = (out, Inr (Some QUIT_CODE), k)"
    by (rule unwinds_while_loop)
next
  fix out k
  assume "unwinds self (Some ENTER_CODE) ins out k"
  then show "enter_next_level self ins = (out, Inr QUIT_CODE, k)"
    by (intro enter_next_level_quit unwinds_while_loop)
next
  fix state shown out opt k out' k'
  assume a: "state \<noteq> Some RETURN_CODE" "state \<noteq> Some QUIT_CODE"
    "redraw self state = Inr shown"
    "request_option self ins = (out, Inr (Some opt), k)"
    "call_exec_func opt (drop k ins) = (out', Inr (Some RETURN_CODE), k')"
  then show w: "while_loop self state ins = (shown @ out @ out', Inr (Some RETURN_CODE), k + k')"
    by (simp add: while_loop_step while_loop_exit)
  assume "state = Some ENTER_CODE"
  with w show "enter_next_level self ins = (shown @ out @ out', Inr ENTER_CODE, k + k')"
    by (intro enter_next_level_return) simp
next
  fix state shown out opt k out' k'
  assume "state \<noteq> Some RETURN_CODE" "state \<noteq> Some QUIT_CODE"
    "redraw self state = Inr shown"
    "request_option self ins = (out, Inr (Some opt), k)"
    "exec_func opt = Enter_next_level" "args opt = 0"
    "enter_next_level opt (drop k ins) = (out', Inr ENTER_CODE, k')"
  then show "while_loop self state ins =
           then_io (shown @ out @ out') (k + k')
             (while_loop self (Some ENTER_CODE) (drop (k + k') ins))"
    by (simp add: while_loop_step call_enter_next_level)
next
  fix state out k
  assume "state \<noteq> Some QUIT_CODE"
    and "while_loop self state ins = (out, Inr (Some QUIT_CODE), k)"
  then show "unwinds self state ins out k"
    by (intro while_loop_quit_unwinds)
next
  fix out k
  assume "while_loop self (Some ENTER_CODE) ins = (out, Inr (Some QUIT_CODE), k)"
  then show "enter_next_level self ins = (out, Inr QUIT_CODE, k)"
    by (rule enter_next_level_quit)
next
  fix out k
  assume "while_loop self (Some ENTER_CODE) ins = (out, Inr (Some RETURN_CODE), k)"
  then show "enter_next_level self ins = (out, Inr ENTER_CODE, k)"
    by (rule enter_next_level_return)
qed

text \<open>
  In the tree of \<open>test_helper\<close> under the default configuration, the lines \<open>1\<close> and \<open>4\<close>
  enter the submenu and choose its exit option: the root returns the quit code after
  those two lines.
\<close>

theorem enter_next_level_propagates_witness:
  "\<exists>out. unwinds (test_helper None) (Some ENTER_CODE) [''1'', ''4''] out 2 \<and>
         enter_next_level (test_helper None) [''1'', ''4''] = (out, Inr QUIT_CODE, 2)"
proof -
  have r1: "redraw (test_helper None) (Some ENTER_CODE) =
      Inr (projr (redraw (test_helper None) (Some ENTER_CODE)))"
    by code_simp
  have o1: "request_option (test_helper None) [''1'', ''4''] =
      (NL @ ''Your option: '', Inr (Some (children (test_helper None) ! 0)), 1)"
    by code_simp
  have x1: "exec_func (children (test_helper None) ! 0) = Enter_next_level"
    "args (children (test_helper None) ! 0) = 0"
    by code_simp+
  have r2: "redraw (children (test_helper None) ! 0) (Some ENTER_CODE) =
      Inr (projr (redraw (children (test_helper None) ! 0) (Some ENTER_CODE)))"
    by code_simp
  have o2: "request_option (children (test_helper None) ! 0) [''4''] =
      (NL @ ''Your option: '', Inr (Some (children (children (test_helper None) ! 0) ! 3)), 1)"
    by code_simp
  have x2: "exec_func (children (children (test_helper None) ! 0) ! 3) \<noteq> Enter_next_level"
    by code_simp
  have c2: "call_exec_func (children (children (test_helper None) ! 0) ! 3) [] =
      ('''', Inr (Some QUIT_CODE), 0)"
    by code_simp
  have e: "Some ENTER_CODE \<noteq> Some RETURN_CODE" "Some ENTER_CODE \<noteq> Some QUIT_CODE"
    by (simp_all add: codes_distinct)
  have inner: "unwinds (children (test_helper None) ! 0) (Some ENTER_CODE) [''4'']
      (projr (redraw (children (test_helper None) ! 0) (Some ENTER_CODE)) @ (NL @ ''Your option: '') @ '''')
      (1 + 0)"
    using unwinds.quit_here [OF e r2 o2 x2] c2 by simp
  have outer: "unwinds (test_helper None) (Some ENTER_CODE) [''1'', ''4'']
      (projr (redraw (test_helper None) (Some ENTER_CODE)) @ (NL @ ''Your option: '')
        @ projr (redraw (children (test_helper None) ! 0) (Some ENTER_CODE)) @ (NL @ ''Your option: '') @ '''')
      (1 + (1 + 0))"
    using unwinds.quit_below [OF e r1 o1 x1] inner by simp
  have two: "1 + (1 + 0) = (2::nat)" by simp
  note u = outer [unfolded two]
  from enter_next_level_propagates [of "test_helper None" "[''1'', ''4'']",
      THEN conjunct2, THEN conjunct2, THEN conjunct1, rule_format, OF u] u
  show ?thesis by blast
qed

section \<open>Redrawing the menu\<close>

text \<open>
  A round of the loop (the state is neither the return nor the quit code) under a
  configuration that has \<open>draw_menu_again\<close>: the round draws the menu exactly when
  \<open>draw_menu_again\<close> is set or the state is the enter code; a menu that is drawn is never
  empty, and an exception of the drawing leaves the loop. The text drawn (nothing when
  the menu is not) comes first, then the request for the choice, whether that request
  raises, fails, or gives an option whose call raises or returns. After a choice that
  was not accepted the next round starts from the state \<open>None\<close>, where the menu is drawn
  only when \<open>draw_menu_again\<close> is set: without it two failed choices in a row print the
  menu of the first round at most, and the two prompts. A line that the validator of
  the choice refuses is such a failed choice.
\<close>

lemma while_loop_redraws:
  assumes "state \<noteq> Some RETURN_CODE" and "state \<noteq> Some QUIT_CODE"
    and "draw_menu_again (menu_config self) = Some again"
  shows
    "redraw self state = (if again \<or> state = Some ENTER_CODE then draw_menu self else Inr '''') \<and>
     redraw self None = (if again then draw_menu self else Inr '''') \<and>
     (\<forall>menu. draw_menu self = Inr menu \<longrightarrow> menu \<noteq> '''') \<and>
     (\<forall>ex. redraw self state = Inl ex \<longrightarrow> while_loop self state ins = ('''', Inl ex, 0)) \<and>
     (\<forall>shown. redraw self state = Inr shown \<longrightarrow>
        (\<forall>out ex k. request_option self ins = (out, Inl ex, k) \<longrightarrow>
           while_loop self state ins = (shown @ out, Inl ex, k)) \<and>
        (\<forall>out k. request_option self ins = (out, Inr None, k) \<longrightarrow>
           while_loop self state ins =
             then_io (shown @ out) k (while_loop self None (drop k ins))) \<and>
        (\<forall>out opt k out' ex k'. request_option self ins = (out, Inr (Some opt), k) \<longrightarrow>
           call_exec_func opt (drop k ins) = (out', Inl ex, k') \<longrightarrow>
           while_loop self state ins = (shown @ out @ out', Inl ex, k + k')) \<and>
        (\<forall>out opt k out' state' k'. request_option self ins = (out, Inr (Some opt), k) \<longrightarrow>
           call_exec_func opt (drop k ins) = (out', Inr state', k') \<longrightarrow>
           while_loop self state ins =
             then_io (shown @ out @ out') (k + k')
               (while_loop self state' (drop (k + k') ins))) \<and>
        (\<forall>out k out2 k2. \<not> again \<longrightarrow>
           request_option self ins = (out, Inr None, k) \<longrightarrow>
           request_option self (drop k ins) = (out2, Inr None, k2) \<longrightarrow>
           while_loop self state ins =
             then_io (shown @ out @ out2) (k + k2)
               (while_loop self None (drop (k + k2) ins)))) \<and>
     (\<forall>raw rest. ins = raw # rest \<longrightarrow> option_check self raw = Inr False \<longrightarrow>
        request_option self ins = (NL @ ''Your option: No such option. '' @ NL, Inr None, 1))"
proof -
  have r: "redraw self s = (if again \<or> s = Some ENTER_CODE then draw_menu self else Inr '''')"
    for s by (simp add: redraw_def assms(3) bind_def getkey_def)
  have n: "None \<noteq> Some RETURN_CODE" "None \<noteq> Some QUIT_CODE" by simp_all
  have twice: "while_loop self state ins =
         then_io (shown @ out @ out2) (k + k2) (while_loop self None (drop (k + k2) ins))"
    if "redraw self state = Inr shown" and "\<not> again"
      and "request_option self ins = (out, Inr None, k)"
      and "request_option self (drop k ins) = (out2, Inr None, k2)" for shown out k out2 k2
  proof -
    obtain o3 r3 k3 where w: "while_loop self None (drop (k + k2) ins) = (o3, r3, k3)"
      using prod_cases3 by blast
    have "redraw self None = Inr ''''"
      using r [of None] that(2) by simp
    from while_loop_step [OF n this, of "drop k ins"] that(4)
    have "while_loop self None (drop k ins) =
        then_io out2 k2 (while_loop self None (drop (k + k2) ins))"
      by (simp add: add.commute)
    with while_loop_step [OF assms(1,2) that(1), of ins] that(3) w show ?thesis
      by (simp add: add.assoc)
  qed
  have first: "redraw self state = Inr shown \<Longrightarrow> while_loop self state ins =
     (case request_option self ins of
        (out, Inl ex, k) \<Rightarrow> (shown @ out, Inl ex, k)
      | (out, Inr None, k) \<Rightarrow> then_io (shown @ out) k (while_loop self None (drop k ins))
      | (out, Inr (Some opt), k) \<Rightarrow>
          (case call_exec_func opt (drop k ins) of
             (out', Inl ex, k') \<Rightarrow> (shown @ out @ out', Inl ex, k + k')
           | (out', Inr state', k') \<Rightarrow>
               then_io (shown @ out @ out') (k + k')
                 (while_loop self state' (drop (k + k') ins))))" for shown
    by (rule while_loop_step [OF assms(1,2)])
  show ?thesis
  proof (intro conjI allI impI)
    show "redraw self state = (if again \<or> state = Some ENTER_CODE then draw_menu self else Inr '''')"
      by (rule r)
    show "redraw self None = (if again then draw_menu self else Inr '''')"
      using r [of None] by simp
  qed (use assms first twice in
        \<open>auto simp: draw_menu_nonempty while_loop_raise request_option_def request_input_option_Cons\<close>)
qed

text \<open>
  From a fresh entry with two lines that name no option: the menu once, then the
  prompt and the error twice, then the prompt on which the input ends.
\<close>

lemma while_loop_redraws_example:
  "while_loop three_options (Some ENTER_CODE) [''9'', ''x''] =
     (projr (draw_menu three_options)
        @ NL @ ''Your option: No such option. '' @ NL
        @ NL @ ''Your option: No such option. '' @ NL
        @ NL @ ''Your option: '', Inl EOFError, 2)"
proof -
  have e: "Some ENTER_CODE \<noteq> Some RETURN_CODE" "Some ENTER_CODE \<noteq> Some QUIT_CODE"
    by (simp_all add: codes_distinct)
  have a: "draw_menu_again (menu_config three_options) = Some False"
    by code_simp
  have d: "redraw three_options (Some ENTER_CODE) = Inr (projr (draw_menu three_options))"
    by code_simp
  have o1: "request_option three_options [''9'', ''x''] =
      (NL @ ''Your option: No such option. '' @ NL, Inr None, 1)"
    by code_simp
  have o2: "request_option three_options (drop 1 [''9'', ''x'']) =
      (NL @ ''Your option: No such option. '' @ NL, Inr None, 1)"
    by code_simp
  have w: "while_loop three_options None (drop (1 + 1) [''9'', ''x'']) =
      (NL @ ''Your option: '', Inl EOFError, 0)"
    by code_simp
  have f: "\<not> False" by simp
  note t = while_loop_redraws [OF e a, of "[''9'', ''x'']", THEN conjunct2, THEN conjunct2,
      THEN conjunct2, THEN conjunct2, THEN conjunct1, rule_format, OF d]
  from t [THEN conjunct2, THEN conjunct2, THEN conjunct2, THEN conjunct2, rule_format,
      OF f o1 o2] w
  show ?thesis by simp
qed

text \<open>
  C4. On the tree and the configuration of \<open>test.py\<close> the first round of the loop,
  entered with the enter code, draws no menu: the configuration has no
  \<open>draw_menu_again\<close>, the lookup raises \<open>KeyError\<close>, and the exception leaves the loop
  before anything is printed and before the choice is requested. On a root without
  options the drawing of the first round raises \<open>ValueError\<close>. Under the default
  configuration the same round draws the menu.
\<close>

theorem while_loop_redraw_raises:
  "redraw (test_helper (Some test_config)) (Some ENTER_CODE) =
     Inl (KeyError ''draw_menu_again'') \<and>
   while_loop (test_helper (Some test_config)) (Some ENTER_CODE) [''1'', ''4''] =
     ('''', Inl (KeyError ''draw_menu_again''), 0) \<and>
   while_loop (CliHelper None) (Some ENTER_CODE) [''1''] = ('''', Inl ValueError, 0) \<and>
   redraw (test_helper None) (Some ENTER_CODE) = draw_menu (test_helper None) \<and>
   isl (draw_menu (test_helper None)) = False"
  by code_simp

section \<open>Exceptions of the traversal\<close>

text \<open>
  C5. \<open>start_loop\<close> on the tree and the configuration of \<open>test.py\<close> raises \<open>KeyError\<close>
  before anything is printed: the configuration has two keys and the loop reads
  \<open>draw_menu_again\<close>. On a root without options it raises \<open>ValueError\<close>, from \<open>max\<close> of no
  titles. Under the default configuration the line of a superscript two raises
  \<open>ValueError\<close> in the validator of the choice. On a node that is not the root it prints
  the message and returns.
\<close>

theorem start_loop_raises:
  "start_loop (test_helper (Some test_config)) [''1'', ''4''] =
     ('''', Inl (KeyError ''draw_menu_again''), 0) \<and>
   start_loop (CliHelper None) [''1''] = ('''', Inl ValueError, 0) \<and>
   snd (start_loop (test_helper None) [''1'', [CHR 0xB2]]) = (Inl ValueError, 2) \<and>
   start_loop (children (test_helper None) ! 0) [''1''] =
     (''Current option is not the root option. Exit.'' @ NL, Inr (), 0)"
  by code_simp

end
